theory Spec2Isabelle
  imports Main "HOL-Library.Multiset" "HOL-Library.Sublist" "HOL-Library.Word"
begin

section \<open>The counting driver of Jellyfish (sub_commands/count_main.cc)\<close>

text \<open>
  The driver is an orchestration layer: it builds a filter chain, runs worker threads
  that feed k-mers to a shared hash table, and dumps and merges the result. The model
  keeps the driver's own control flow and represents every collaborator that lives in
  another file of the repository (the table, the dumper, the merger, the generator
  manager) by the calls the driver makes on it.
\<close>

subsection \<open>K-mers\<close>

datatype base = A | C | G | T

type_synonym mer_dna = "base list"

subsection \<open>K-mer filters\<close>

text \<open>
  \<^verbatim>\<open>struct filter\<close> and \<^verbatim>\<open>struct filter_bf\<close>: a linked list through the nullable pointer
  \<^verbatim>\<open>prev_\<close>. The Bloom counter held by \<^verbatim>\<open>filter_bf\<close> is represented by its \<^verbatim>\<open>check\<close>
  function, the only member the driver uses.
\<close>

datatype filter_t =
    Filter "filter_t option"
  | Filter_bf "mer_dna \<Rightarrow> nat" "filter_t option"

text \<open>
  \<^verbatim>\<open>operator()\<close> is \<open>accepts\<close>; \<^verbatim>\<open>and_res\<close> is a member function and reads
  \<^verbatim>\<open>prev_\<close> of the object it is called on, which is passed here as the pointer value.
\<close>

fun accepts :: "filter_t \<Rightarrow> mer_dna \<Rightarrow> bool"
  and and_res :: "filter_t option \<Rightarrow> bool \<Rightarrow> mer_dna \<Rightarrow> bool" where
  "accepts (Filter prev) x = and_res prev True x"
| "accepts (Filter_bf counter prev) m = (let c = counter m in and_res prev (1 < c) m)"
| "and_res prev r x = (if r then (case prev of Some p \<Rightarrow> accepts p x | None \<Rightarrow> True) else False)"

text \<open>
  The spec's reading of the chain, for comparison with \<open>accepts\<close>: the predicates linked
  from a filter, newest first, and the test that each one contributes on its own.
\<close>

fun chain :: "filter_t \<Rightarrow> filter_t list" where
  "chain (Filter None) = [Filter None]"
| "chain (Filter (Some p)) = Filter (Some p) # chain p"
| "chain (Filter_bf counter None) = [Filter_bf counter None]"
| "chain (Filter_bf counter (Some p)) = Filter_bf counter (Some p) # chain p"

fun own_test :: "filter_t \<Rightarrow> mer_dna \<Rightarrow> bool" where
  "own_test (Filter prev) x = True"
| "own_test (Filter_bf counter prev) x = (1 < counter x)"

subsection \<open>The worker\<close>

datatype OPERATION = COUNT | PRIME | UPDATE

text \<open>
  The calls a worker makes on the shared table \<^verbatim>\<open>ary_\<close>. The third argument of
  \<^verbatim>\<open>update_add\<close> is a scratch k-mer that the caller never reads; it is left out.
\<close>

datatype call = Add mer_dna nat | Set_mer mer_dna | Update_add mer_dna nat | Done

fun call_key :: "call \<Rightarrow> mer_dna option" where
  "call_key (Add key delta) = Some key"
| "call_key (Set_mer key) = Some key"
| "call_key (Update_add key delta) = Some key"
| "call_key Done = None"

subsection \<open>The k-mer iterator\<close>

text \<open>
  Modelled from the spec: \<^verbatim>\<open>mer_dna\<close> and \<^verbatim>\<open>mer_iterator\<close> (jellyfish/mer_dna.hpp,
  jellyfish/mer_iterator.hpp) are not part of the sources at hand. The spec describes a
  k-mer as a substring of fixed length \<open>k\<close> over a 4-symbol alphabet, packed at 2 bits per
  symbol, and the canonical form as the lexicographically smaller of a k-mer and its
  reverse complement; its scenario lists the 4-mers of ACGTACGT as ACGT, CGTA, GTAC,
  TACG, ACGT. So the iterator yields every window of length \<open>k\<close> of each sequence it is
  given, left to right, canonicalized when the flag is set.
\<close>

fun code :: "base \<Rightarrow> nat" where
  "code A = 0"
| "code C = 1"
| "code G = 2"
| "code T = 3"

definition encode :: "mer_dna \<Rightarrow> nat" where
  "encode m = foldl (\<lambda>key b. 4 * key + code b) 0 m"

fun complement :: "base \<Rightarrow> base" where
  "complement A = T"
| "complement C = G"
| "complement G = C"
| "complement T = A"

definition reverse_complement :: "mer_dna \<Rightarrow> mer_dna" where
  "reverse_complement m = rev (map complement m)"

definition canonicalize :: "mer_dna \<Rightarrow> mer_dna" where
  "canonicalize m = (let rcm = reverse_complement m in if encode m \<le> encode rcm then m else rcm)"

fun windows :: "nat \<Rightarrow> base list \<Rightarrow> mer_dna list" where
  "windows k [] = []"
| "windows k (b # bs) =
     (if 0 < k \<and> k \<le> length (b # bs) then take k (b # bs) # windows k bs else [])"

definition mer_iterator :: "nat \<Rightarrow> bool \<Rightarrow> base list list \<Rightarrow> mer_dna list" where
  "mer_iterator k canonical seqs =
     concat (map (\<lambda>s. map (\<lambda>m. if canonical then canonicalize m else m) (windows k s)) seqs)"

subsection \<open>The worker loops\<close>

text \<open>
  \<^verbatim>\<open>class mer_counter\<close>. The parser is shared by the workers of one counter and hands
  each of them some of the input; \<open>parser_fld thid\<close> is the list of sequences that worker
  \<open>thid\<close> receives from it during the run. The table \<^verbatim>\<open>ary_\<close> is represented by the calls
  made on it.
\<close>

record mer_counter =
  parser_fld :: "nat \<Rightarrow> base list list"
  filter_fld :: filter_t
  op_fld :: OPERATION

text \<open>
  The constructor; its last parameter defaults to \<^verbatim>\<open>new filter\<close> when the caller leaves it
  out (\<open>None\<close> here).
\<close>

definition new_mer_counter ::
  "(nat \<Rightarrow> base list list) \<Rightarrow> OPERATION \<Rightarrow> filter_t option \<Rightarrow> mer_counter" where
  "new_mer_counter parser op flt =
     \<lparr>parser_fld = parser,
      filter_fld = (case flt of None \<Rightarrow> Filter None | Some f \<Rightarrow> f),
      op_fld = op\<rparr>"

text \<open>
  The three loops of \<^verbatim>\<open>mer_counter::start\<close>, over the k-mers that the worker's iterator
  yields until it is exhausted. The local \<^verbatim>\<open>count\<close> is incremented and never read; it is
  left out.
\<close>

fun count_loop :: "filter_t \<Rightarrow> mer_dna list \<Rightarrow> call list" where
  "count_loop flt [] = []"
| "count_loop flt (m # mers) =
     (if accepts flt m then Add m 1 # count_loop flt mers else count_loop flt mers)"

fun prime_loop :: "filter_t \<Rightarrow> mer_dna list \<Rightarrow> call list" where
  "prime_loop flt [] = []"
| "prime_loop flt (m # mers) =
     (if accepts flt m then Set_mer m # prime_loop flt mers else prime_loop flt mers)"

fun update_loop :: "filter_t \<Rightarrow> mer_dna list \<Rightarrow> call list" where
  "update_loop flt [] = []"
| "update_loop flt (m # mers) =
     (if accepts flt m then Update_add m 1 # update_loop flt mers
      else update_loop flt mers)"

text \<open>
  \<^verbatim>\<open>start(thid)\<close>: \<open>k\<close> is the global \<^verbatim>\<open>mer_dna::k()\<close> and \<open>canonical\<close> the global
  \<^verbatim>\<open>args.canonical_flag\<close>. The result is the sequence of calls this worker makes on the
  table, oldest first.
\<close>

definition start :: "nat \<Rightarrow> bool \<Rightarrow> mer_counter \<Rightarrow> nat \<Rightarrow> call list" where
  "start k canonical mc thid =
     (case op_fld mc of
        COUNT \<Rightarrow> count_loop (filter_fld mc) (mer_iterator k canonical (parser_fld mc thid))
      | PRIME \<Rightarrow> prime_loop (filter_fld mc) (mer_iterator k canonical (parser_fld mc thid))
      | UPDATE \<Rightarrow> update_loop (filter_fld mc) (mer_iterator k canonical (parser_fld mc thid)))
     @ [Done]"

text \<open>The call that a worker makes for an accepted k-mer in each mode.\<close>

definition op_call :: "OPERATION \<Rightarrow> mer_dna \<Rightarrow> call" where
  "op_call op m = (case op of COUNT \<Rightarrow> Add m 1 | PRIME \<Rightarrow> Set_mer m | UPDATE \<Rightarrow> Update_add m 1)"

text \<open>
  Modelled from the spec: \<^verbatim>\<open>thread_exec::exec_join\<close> (jellyfish/thread_exec.hpp) is not
  part of the sources at hand. The spec describes a fixed-size pool of parallel workers,
  one per configured thread, each running its loop to completion. The result lists what
  each worker did, by thread id.
\<close>

definition exec_join :: "nat \<Rightarrow> (nat \<Rightarrow> call list) \<Rightarrow> call list list" where
  "exec_join nb_threads body = map body [0..<nb_threads]"

text \<open>
  What the workers of one pass do, by thread id, written without the loops: each makes
  the call of its mode for every accepted k-mer of its input, then \<^verbatim>\<open>done()\<close>.
\<close>

definition pass_calls ::
  "OPERATION \<Rightarrow> filter_t \<Rightarrow> nat \<Rightarrow> bool \<Rightarrow> (nat \<Rightarrow> base list list) \<Rightarrow> nat \<Rightarrow> call list list" where
  "pass_calls op flt k canonical parser nb_threads =
     map (\<lambda>thid. map (op_call op) (filter (accepts flt) (mer_iterator k canonical (parser thid)))
                  @ [Done]) [0..<nb_threads]"

text \<open>
  The workers run concurrently, so the table sees their calls interleaved. A schedule
  names the worker that makes the next call; a worker named after it has finished is
  skipped, and when the schedule is used up the remaining workers run to completion in
  order, since \<^verbatim>\<open>exec_join\<close> joins every thread.
\<close>

fun interleave :: "nat list \<Rightarrow> call list list \<Rightarrow> call list" where
  "interleave [] traces = concat traces"
| "interleave (t # sched) traces =
     (if t < length traces then
        (case traces ! t of
           [] \<Rightarrow> interleave sched traces
         | c # cs \<Rightarrow> c # interleave sched (traces[t := cs]))
      else interleave sched traces)"

subsection \<open>The shared table\<close>

text \<open>
  Modelled from the spec: \<^verbatim>\<open>mer_hash\<close> (jellyfish/hash_counter.hpp) is not part of the
  sources at hand. The spec's contract: \<^verbatim>\<open>add\<close> increments the count of a resident key by
  \<open>delta\<close> and initializes an absent key to \<open>delta\<close>; \<^verbatim>\<open>set\<close> marks presence without a
  meaningful count; \<^verbatim>\<open>update_add\<close> increments only a key that is already present and
  ignores any other; \<^verbatim>\<open>done\<close> is called once by each worker. Each call is atomic. The
  table here is never full, so it is never dumped, and its counts do not saturate.
\<close>

record mer_hash =
  slots :: "mer_dna \<rightharpoonup> nat"
  nb_done :: nat

definition empty_hash :: mer_hash where
  "empty_hash = \<lparr>slots = Map.empty, nb_done = 0\<rparr>"

definition hash_add :: "mer_dna \<Rightarrow> nat \<Rightarrow> mer_hash \<Rightarrow> mer_hash" where
  "hash_add key delta h =
     h\<lparr>slots := (slots h)(key \<mapsto> (case slots h key of None \<Rightarrow> delta | Some c \<Rightarrow> c + delta))\<rparr>"

definition hash_set :: "mer_dna \<Rightarrow> mer_hash \<Rightarrow> mer_hash" where
  "hash_set key h =
     (case slots h key of None \<Rightarrow> h\<lparr>slots := (slots h)(key \<mapsto> 0)\<rparr> | Some c \<Rightarrow> h)"

definition hash_update_add :: "mer_dna \<Rightarrow> nat \<Rightarrow> mer_hash \<Rightarrow> mer_hash" where
  "hash_update_add key delta h =
     (case slots h key of None \<Rightarrow> h | Some c \<Rightarrow> h\<lparr>slots := (slots h)(key \<mapsto> c + delta)\<rparr>)"

definition hash_done :: "mer_hash \<Rightarrow> mer_hash" where
  "hash_done h = h\<lparr>nb_done := Suc (nb_done h)\<rparr>"

fun apply_call :: "mer_hash \<Rightarrow> call \<Rightarrow> mer_hash" where
  "apply_call h (Add key delta) = hash_add key delta h"
| "apply_call h (Set_mer key) = hash_set key h"
| "apply_call h (Update_add key delta) = hash_update_add key delta h"
| "apply_call h Done = hash_done h"

definition run_calls :: "mer_hash \<Rightarrow> call list \<Rightarrow> mer_hash" where
  "run_calls h calls = foldl apply_call h calls"

text \<open>The calls of a COUNT pass: \<^verbatim>\<open>add(key, 1)\<close> and \<^verbatim>\<open>done()\<close>.\<close>

fun counting_call :: "call \<Rightarrow> bool" where
  "counting_call (Add key delta) = (delta = 1)"
| "counting_call Done = True"
| "counting_call c = False"

subsection \<open>Loading the Bloom filter\<close>

datatype error =
    Failed_to_parse string
  | Invalid_format string
  | Invalid_mer_length
  | Truncated
  | Generators_failed
  | Merge_failed string

text \<open>
  The state of a \<^verbatim>\<open>std::ifstream\<close> that \<^verbatim>\<open>in.good()\<close> and a read depend on: whether no
  error flag is set, and the number of bytes left in the file. The error state is
  sticky: \<^verbatim>\<open>read\<close> on a stream that is not good reads nothing and leaves it not good; on
  a good stream it consumes the bytes asked for when that many are left, and otherwise
  sets the end-of-file and fail flags.
\<close>

record ifstream =
  good :: bool
  remaining :: nat

definition stream_read :: "nat \<Rightarrow> ifstream \<Rightarrow> ifstream" where
  "stream_read n ins =
     (if \<not> good ins then ins
      else if n \<le> remaining ins then ins\<lparr>remaining := remaining ins - n\<rparr>
      else ins\<lparr>good := False, remaining := 0\<rparr>)"

text \<open>
  What \<^verbatim>\<open>load_bloom_filter\<close> observes of the file behind a path: the stream as
  \<^verbatim>\<open>jellyfish::file_header\<close> leaves it when the header has been constructed from it, the
  header's format tag and key length (an \<^verbatim>\<open>unsigned int\<close>), the number of bytes of the
  counter array that the header declares, and the \<^verbatim>\<open>check\<close> function of the counter
  built from the file.
\<close>

record bf_stream =
  after_header :: ifstream
  format :: string
  key_len :: "32 word"
  declared_bytes :: nat
  check :: "mer_dna \<Rightarrow> nat"

text \<open>
  Modelled from the spec: the constructor of \<^verbatim>\<open>mer_dna_bloom_counter\<close>
  (jellyfish/mer_dna_bloom_counter.hpp) is not part of the sources at hand. By the spec
  the counter array of the declared size follows the header, and loading fails when
  fewer bytes than declared are available: the constructor reads the declared number of
  bytes from the stream it is given.
\<close>

definition new_bloom_counter :: "nat \<Rightarrow> ifstream \<Rightarrow> ifstream" where
  "new_bloom_counter nb_bytes ins = stream_read nb_bytes ins"

text \<open>
  \<^verbatim>\<open>load_bloom_filter\<close>, lines 149 to 164. \<^verbatim>\<open>die\<close> ends the process with a
  diagnostic: the error value is that diagnostic. \<open>k\<close> is the global \<^verbatim>\<open>mer_dna::k()\<close>,
  an \<^verbatim>\<open>unsigned int\<close>, and \<open>k * 2\<close> is computed at that width. Both tests of
  \<^verbatim>\<open>in.good()\<close> read the one stream \<^verbatim>\<open>in\<close>.
\<close>

definition load_bloom_filter ::
  "32 word \<Rightarrow> string \<Rightarrow> bf_stream \<Rightarrow> error + (mer_dna \<Rightarrow> nat)" where
  "load_bloom_filter k path f =
     (let ins = after_header f
      in if \<not> good ins then Inl (Failed_to_parse path)
         else if format f \<noteq> ''bloomcounter'' then Inl (Invalid_format (format f))
         else if key_len f \<noteq> k * 2 then Inl Invalid_mer_length
         else
           (let ins = new_bloom_counter (declared_bytes f) ins
            in if \<not> good ins then Inl Truncated
               else Inr (check f)))"

subsection \<open>The driver\<close>

text \<open>
  The switches of \<^verbatim>\<open>count_main_cmdline\<close> that decide which calls the driver makes. The
  table geometry, the output encoding and the header do not, and are left out.
\<close>

record count_main_cmdline =
  mer_len_arg :: nat
  canonical_flag :: bool
  threads_arg :: nat
  generator_given :: bool
  if_given :: bool
  if_arg :: "string list"
  file_arg :: "string list"
  bf_given :: bool
  bf_arg :: string
  output_arg :: string
  no_write_flag :: bool
  no_merge_flag :: bool
  no_unlink_flag :: bool
  lower_count_given :: bool
  lower_count_arg :: "64 word"
  upper_count_given :: bool
  upper_count_arg :: "64 word"
  timing_given :: bool
  timing_arg :: string

text \<open>
  What the collaborators answer during one run: the sequences that the parser over the
  given files and pipes hands to each worker; the stream behind a Bloom filter path; the
  pipes of the generator manager and the result of its \<^verbatim>\<open>wait()\<close>; the names of the dump
  files that the table has written by the end of counting (it dumps when it is full);
  the name of the file written by the driver's own dump; and the message of the
  \<^verbatim>\<open>MergeError\<close> that \<^verbatim>\<open>merge_files\<close> throws, if it throws.
\<close>

record world =
  sequences :: "string list \<Rightarrow> string list \<Rightarrow> nat \<Rightarrow> base list list"
  bf_open :: "string \<Rightarrow> bf_stream"
  generator_pipes :: "string list"
  generator_wait :: bool
  spilled :: "string list"
  final_dump :: string
  merge_error :: "string option"

text \<open>
  The calls of the driver on its collaborators, in program order. \<open>Exec_join\<close> holds
  what each worker of one pass did on the table. \<open>Dump\<close> holds what the driver has set
  on the dumper by the time of the call: whether it has called \<^verbatim>\<open>one_file(true)\<close>, and
  the bounds it has given to \<^verbatim>\<open>min\<close> and \<^verbatim>\<open>max\<close>, \<open>None\<close> when it has not called them.
\<close>

datatype event =
    Generator_start
  | Exec_join "call list list"
  | Generator_wait
  | Dump bool "64 word option" "64 word option"
  | Merge_files "string list" string "64 word" "64 word"
  | Unlink string
  | Timing string

text \<open>\<^verbatim>\<open>std::numeric_limits<uint64_t>::max()\<close>.\<close>

definition uint64_max :: "64 word" where
  "uint64_max = - 1"

text \<open>Starting the generator manager, lines 187 to 199 (signal handling left out).\<close>

definition generator_started :: "count_main_cmdline \<Rightarrow> event list" where
  "generator_started args = (if generator_given args then [Generator_start] else [])"

text \<open>The priming pass, lines 215 to 223; it also decides \<^verbatim>\<open>do_op\<close>.\<close>

definition prime_pass :: "count_main_cmdline \<Rightarrow> world \<Rightarrow> event list" where
  "prime_pass args w =
     (if if_given args then
        [Exec_join (exec_join (threads_arg args)
           (start (mer_len_arg args) (canonical_flag args)
              (new_mer_counter (sequences w (if_arg args) []) PRIME None)))]
      else [])"

definition do_op :: "count_main_cmdline \<Rightarrow> OPERATION" where
  "do_op args = (if if_given args then UPDATE else COUNT)"

text \<open>
  The filter of the main pass, lines 229 to 234. \<^verbatim>\<open>mer_dna::k()\<close> holds the k-mer length
  of the command line as an \<^verbatim>\<open>unsigned int\<close>.
\<close>

definition mer_filter :: "count_main_cmdline \<Rightarrow> world \<Rightarrow> error + filter_t" where
  "mer_filter args w =
     (if bf_given args then
        (case load_bloom_filter (word_of_nat (mer_len_arg args)) (bf_arg args)
                (bf_open w (bf_arg args)) of
           Inl e \<Rightarrow> Inl e
         | Inr bc \<Rightarrow> Inr (Filter_bf bc None))
      else Inr (Filter None))"

text \<open>The main pass, lines 225 to 241.\<close>

definition main_pass :: "count_main_cmdline \<Rightarrow> world \<Rightarrow> filter_t \<Rightarrow> event list" where
  "main_pass args w flt =
     (let pipes = (if generator_given args then generator_pipes w else [])
      in [Exec_join (exec_join (threads_arg args)
            (start (mer_len_arg args) (canonical_flag args)
               (new_mer_counter (sequences w (file_arg args) pipes) (do_op args) (Some flt))))])"

text \<open>
  Writing the result, lines 254 to 280. \<^verbatim>\<open>nb_files()\<close> is the number of dump files
  written so far, and \<^verbatim>\<open>file_names_cstr()\<close> their names in creation order; the driver's
  own dump adds one file.
\<close>

definition write_output :: "count_main_cmdline \<Rightarrow> world \<Rightarrow> event list \<times> (error + unit)" where
  "write_output args w =
     (if \<not> no_write_flag args then
        (if length (spilled w) = 0 then
           ([Dump True
               (if lower_count_given args then Some (lower_count_arg args) else None)
               (if upper_count_given args then Some (upper_count_arg args) else None)],
            Inr ())
         else
           (if \<not> no_merge_flag args then
              (let files = spilled w @ [final_dump w];
                   min_count = (if lower_count_given args then lower_count_arg args else 0);
                   max_count = (if upper_count_given args then upper_count_arg args else uint64_max)
               in case merge_error w of
                    Some msg \<Rightarrow>
                      ([Dump False None None,
                        Merge_files files (output_arg args) min_count max_count],
                       Inl (Merge_failed msg))
                  | None \<Rightarrow>
                      ([Dump False None None,
                        Merge_files files (output_arg args) min_count max_count]
                       @ (if \<not> no_unlink_flag args
                          then map (\<lambda>i. Unlink (files ! i)) [0..<length files] else []),
                       Inr ()))
            else ([Dump False None None], Inr ())))
      else ([], Inr ()))"

text \<open>
  \<^verbatim>\<open>count_main\<close>: the calls made, and either the diagnostic of the \<^verbatim>\<open>die\<close> that ended the
  process or the value returned.
\<close>

definition count_main :: "count_main_cmdline \<Rightarrow> world \<Rightarrow> event list \<times> (error + int)" where
  "count_main args w =
     (let before = generator_started args @ prime_pass args w
      in case mer_filter args w of
           Inl e \<Rightarrow> (before, Inl e)
         | Inr flt \<Rightarrow>
             (let counted = before @ main_pass args w flt
              in if generator_given args \<and> \<not> generator_wait w
                 then (counted @ [Generator_wait], Inl Generators_failed)
                 else
                   (let waited = counted @ (if generator_given args then [Generator_wait] else [])
                    in case write_output args w of
                         (out, Inl e) \<Rightarrow> (waited @ out, Inl e)
                       | (out, Inr u) \<Rightarrow>
                           (waited @ out
                            @ (if timing_given args then [Timing (timing_arg args)] else []),
                            Inr 0))))"

text \<open>The calls that write, merge or delete files, or report timing.\<close>

fun is_output :: "event \<Rightarrow> bool" where
  "is_output (Dump one_file lo hi) = True"
| "is_output (Merge_files files out lo hi) = True"
| "is_output (Unlink file) = True"
| "is_output (Timing file) = True"
| "is_output ev = False"

fun is_exec_join :: "event \<Rightarrow> bool" where
  "is_exec_join (Exec_join traces) = True"
| "is_exec_join ev = False"

text \<open>The calls made on the table in an event, worker after worker.\<close>

fun exec_calls :: "event \<Rightarrow> call list" where
  "exec_calls (Exec_join traces) = concat traces"
| "exec_calls ev = []"

fun is_dump :: "event \<Rightarrow> bool" where
  "is_dump (Dump one_file lo hi) = True"
| "is_dump ev = False"

fun is_unlink :: "event \<Rightarrow> bool" where
  "is_unlink (Unlink file) = True"
| "is_unlink ev = False"

fun is_merge :: "event \<Rightarrow> bool" where
  "is_merge (Merge_files files out lo hi) = True"
| "is_merge ev = False"

text \<open>
  The run gets as far as writing its output: the Bloom filter, if one is given, has been
  loaded, and the generator commands, if any, have succeeded.
\<close>

definition reaches_output :: "count_main_cmdline \<Rightarrow> world \<Rightarrow> bool" where
  "reaches_output args w \<longleftrightarrow>
     \<not> isl (mer_filter args w) \<and> (generator_given args \<longrightarrow> generator_wait w)"

subsection \<open>A sample run\<close>

text \<open>
  Counting the 4-mers of ACGTACGT with two workers, the first of which receives the whole
  sequence; a Bloom filter file that is well formed for \<open>k = 4\<close> and has seen ACGT twice
  and every other 4-mer once.
\<close>

definition sample_args :: count_main_cmdline where
  "sample_args =
     \<lparr>mer_len_arg = 4, canonical_flag = False, threads_arg = 2, generator_given = False,
      if_given = False, if_arg = [], file_arg = [''reads.fa''],
      bf_given = False, bf_arg = ''reads.bc'', output_arg = ''mer_counts.jf'',
      no_write_flag = False, no_merge_flag = False, no_unlink_flag = False,
      lower_count_given = False, lower_count_arg = 0,
      upper_count_given = False, upper_count_arg = 0,
      timing_given = False, timing_arg = ''timing''\<rparr>"

definition sample_bf :: bf_stream where
  "sample_bf =
     \<lparr>after_header = \<lparr>good = True, remaining = 52\<rparr>,
      format = ''bloomcounter'', key_len = 8, declared_bytes = 52,
      check = (\<lambda>m. if m = [A, C, G, T] then 2 else 1)\<rparr>"

text \<open>
  A path with no file behind it: the stream is not good and no header has been read.
\<close>

definition missing_bf :: bf_stream where
  "missing_bf =
     \<lparr>after_header = \<lparr>good = False, remaining = 0\<rparr>,
      format = [], key_len = 0, declared_bytes = 0,
      check = (\<lambda>m. 0)\<rparr>"


definition sample_world :: world where
  "sample_world =
     \<lparr>sequences = (\<lambda>files pipes thid. if thid = 0 then [[A, C, G, T, A, C, G, T]] else []),
      bf_open = (\<lambda>path. sample_bf),
      generator_pipes = [],
      generator_wait = True,
      spilled = [],
      final_dump = ''mer_counts.jf_0'',
      merge_error = None\<rparr>"

text \<open>The same run on a table that was full once and dumped itself during counting.\<close>

definition spilled_world :: world where
  "spilled_world =
     sample_world\<lparr>spilled := [''mer_counts.jf_0''], final_dump := ''mer_counts.jf_1''\<rparr>"

text \<open>
  The same sequence read in two chunks that overlap by \<open>k - 1\<close> symbols, one for each
  worker.
\<close>

definition split_parser :: "nat \<Rightarrow> base list list" where
  "split_parser thid =
     (if thid = 0 then [[A, C, G, T, A, C]] else if thid = 1 then [[T, A, C, G, T]] else [])"

section \<open>Properties of the filters and the worker\<close>

lemma accepts_chain: "accepts f x = (\<forall>p \<in> set (chain f). own_test p x)"
  by (induction f rule: chain.induct) simp_all

lemma count_loop_eq: "count_loop flt mers = map (\<lambda>m. Add m 1) (filter (accepts flt) mers)"
  by (induction mers) simp_all

lemma prime_loop_eq: "prime_loop flt mers = map Set_mer (filter (accepts flt) mers)"
  by (induction mers) simp_all

lemma update_loop_eq: "update_loop flt mers = map (\<lambda>m. Update_add m 1) (filter (accepts flt) mers)"
  by (induction mers) simp_all

lemma start_eq:
  "start k canonical mc thid =
     map (op_call (op_fld mc))
       (filter (accepts (filter_fld mc)) (mer_iterator k canonical (parser_fld mc thid))) @ [Done]"
  by (cases "op_fld mc") (simp_all add: start_def op_call_def count_loop_eq prime_loop_eq update_loop_eq)

lemma call_key_op_call: "call_key (op_call op m) = Some m"
  by (cases op) (simp_all add: op_call_def)

lemma op_call_not_Done: "Done \<noteq> op_call op m"
  by (cases op) (simp_all add: op_call_def)

lemma mer_filter_loaded:
  "bf_given args \<Longrightarrow> \<not> isl (mer_filter args w) \<Longrightarrow>
   mer_filter args w = Inr (Filter_bf (check (bf_open w (bf_arg args))) None)"
  by (simp add: mer_filter_def load_bloom_filter_def Let_def split: if_splits)

text \<open>
  Claim C4. A filter accepts a k-mer exactly when every predicate linked from it does;
  the base filter without predecessor accepts every k-mer, and it is the filter of a
  counter built without one and of the main pass when no Bloom filter is given.
\<close>

theorem filter_chain_conjunction:
  "(accepts f x \<longleftrightarrow> (\<forall>p \<in> set (chain f). own_test p x))
   \<and> accepts (Filter None) x
   \<and> filter_fld (new_mer_counter parser op None) = Filter None
   \<and> (\<not> bf_given args \<longrightarrow> mer_filter args w = Inr (Filter None))"
  by (simp add: accepts_chain new_mer_counter_def mer_filter_def)

theorem filter_chain_conjunction_witness:
  "accepts (Filter (Some (Filter_bf (check sample_bf) None))) [A, C, G, T]
   \<and> \<not> accepts (Filter (Some (Filter_bf (check sample_bf) None))) [C, G, T, A]
   \<and> \<not> bf_given sample_args \<and> mer_filter sample_args sample_world = Inr (Filter None)"
  using filter_chain_conjunction [of "Filter (Some (Filter_bf (check sample_bf) None))" "[A, C, G, T]"
          _ _ sample_args sample_world]
        filter_chain_conjunction [of "Filter (Some (Filter_bf (check sample_bf) None))" "[C, G, T, A]"]
  by (simp add: sample_bf_def sample_args_def)

text \<open>
  Claim C9. In every mode a worker calls \<^verbatim>\<open>done()\<close> exactly once, as its last call, after
  the call for every accepted k-mer of its input; \<^verbatim>\<open>exec_join\<close> runs one such worker per
  thread.
\<close>

theorem done_once_at_end:
  "count_list (start k canonical mc thid) Done = 1
   \<and> last (start k canonical mc thid) = Done
   \<and> map call_key (butlast (start k canonical mc thid)) =
       map Some (filter (accepts (filter_fld mc)) (mer_iterator k canonical (parser_fld mc thid)))
   \<and> length (exec_join nb_threads (start k canonical mc)) = nb_threads
   \<and> (\<forall>thid < nb_threads.
        exec_join nb_threads (start k canonical mc) ! thid = start k canonical mc thid)"
proof -
  let ?body = "map (op_call (op_fld mc))
       (filter (accepts (filter_fld mc)) (mer_iterator k canonical (parser_fld mc thid)))"
  have st: "start k canonical mc thid = ?body @ [Done]"
    by (rule start_eq)
  have "count_list ?body Done = 0"
    by (auto simp: count_list_0_iff op_call_not_Done)
  then have c1: "count_list (start k canonical mc thid) Done = 1"
    by (simp add: st)
  have c2: "last (start k canonical mc thid) = Done"
    by (simp add: st)
  have c3: "map call_key (butlast (start k canonical mc thid)) =
       map Some (filter (accepts (filter_fld mc)) (mer_iterator k canonical (parser_fld mc thid)))"
    by (simp add: st call_key_op_call comp_def)
  have c4: "length (exec_join nb_threads (start k canonical mc)) = nb_threads"
    by (simp add: exec_join_def)
  have c5: "\<forall>thid < nb_threads.
        exec_join nb_threads (start k canonical mc) ! thid = start k canonical mc thid"
    by (simp add: exec_join_def)
  from c1 c2 c3 c4 c5 show ?thesis by blast
qed

theorem done_once_at_end_witness:
  "count_list (start 4 False (new_mer_counter (sequences sample_world [] []) UPDATE None) 0) Done = 1
   \<and> start 4 False (new_mer_counter (sequences sample_world [] []) UPDATE None) 0 =
       [Update_add [A, C, G, T] 1, Update_add [C, G, T, A] 1, Update_add [G, T, A, C] 1,
        Update_add [T, A, C, G] 1, Update_add [A, C, G, T] 1, Done]
   \<and> (1::nat) < 2
   \<and> exec_join 2 (start 4 False (new_mer_counter (sequences sample_world [] []) UPDATE None)) ! 1
       = [Done]"
  using done_once_at_end [of 4 False "new_mer_counter (sequences sample_world [] []) UPDATE None" 0 2]
  by (simp add: start_def new_mer_counter_def sample_world_def mer_iterator_def)

section \<open>Loading the Bloom filter\<close>




section \<open>The passes of the driver\<close>

lemma exec_join_start:
  "exec_join n (start k canonical (new_mer_counter parser op flt)) =
     pass_calls op (case flt of None \<Rightarrow> Filter None | Some f \<Rightarrow> f) k canonical parser n"
  by (simp add: exec_join_def pass_calls_def start_eq new_mer_counter_def)

lemma prime_pass_eq:
  "prime_pass args w =
     (if if_given args then
        [Exec_join (pass_calls PRIME (Filter None) (mer_len_arg args) (canonical_flag args)
                      (sequences w (if_arg args) []) (threads_arg args))]
      else [])"
  by (simp add: prime_pass_def exec_join_start)

lemma main_pass_eq:
  "main_pass args w flt =
     [Exec_join (pass_calls (if if_given args then UPDATE else COUNT) flt
                   (mer_len_arg args) (canonical_flag args)
                   (sequences w (file_arg args)
                      (if generator_given args then generator_pipes w else []))
                   (threads_arg args))]"
  by (simp add: main_pass_def exec_join_start do_op_def)

lemma count_main_load_failed:
  "mer_filter args w = Inl e \<Longrightarrow>
   count_main args w = (generator_started args @ prime_pass args w, Inl e)"
  by (simp add: count_main_def generator_started_def)

lemma count_main_generators_failed:
  "mer_filter args w = Inr flt \<Longrightarrow> generator_given args \<Longrightarrow> \<not> generator_wait w \<Longrightarrow>
   count_main args w =
     (generator_started args @ prime_pass args w @ main_pass args w flt @ [Generator_wait],
      Inl Generators_failed)"
  by (simp add: count_main_def generator_started_def)

lemma count_main_counted:
  "mer_filter args w = Inr flt \<Longrightarrow> generator_given args \<longrightarrow> generator_wait w \<Longrightarrow>
   count_main args w =
     (generator_started args @ prime_pass args w @ main_pass args w flt
        @ (if generator_given args then [Generator_wait] else [])
        @ fst (write_output args w)
        @ (if \<not> isl (snd (write_output args w)) \<and> timing_given args
           then [Timing (timing_arg args)] else []),
      case snd (write_output args w) of Inl e \<Rightarrow> Inl e | Inr u \<Rightarrow> Inr 0)"
  by (cases "write_output args w"; cases "snd (write_output args w)")
     (auto simp: count_main_def generator_started_def Let_def)

lemma count_main_prefix:
  "prefix (generator_started args @ prime_pass args w) (fst (count_main args w))"
proof (cases "mer_filter args w")
  case (Inl e)
  then show ?thesis by (simp add: count_main_load_failed)
next
  case (Inr flt)
  then show ?thesis
    by (cases "generator_given args \<longrightarrow> generator_wait w")
       (simp_all add: count_main_counted count_main_generators_failed)
qed

lemma count_main_prefix_main:
  assumes "mer_filter args w = Inr flt"
  shows "prefix (generator_started args @ prime_pass args w @ main_pass args w flt)
           (fst (count_main args w))"
  using assms
  by (cases "generator_given args \<longrightarrow> generator_wait w")
     (simp_all add: count_main_counted count_main_generators_failed)

lemma mer_iterator_canonical:
  "mer_iterator k True seqs = map canonicalize (mer_iterator k False seqs)"
  by (simp add: mer_iterator_def map_concat comp_def)

text \<open>
  Claim C5. When an intersection file is given, the run starts with a priming pass over
  it whose workers call \<^verbatim>\<open>set\<close> for each k-mer accepted by its filter, followed by the
  main pass whose workers call \<^verbatim>\<open>update_add(key, 1)\<close>; otherwise the main pass comes
  first and its workers call \<^verbatim>\<open>add(key, 1)\<close>. The keys are those of the iterator, which
  canonicalizes them when the canonical flag is set.
\<close>

theorem mode_selection:
  "(mer_filter args w = Inr flt \<longrightarrow>
      prefix
        ((if generator_given args then [Generator_start] else [])
         @ (if if_given args then
              [Exec_join (pass_calls PRIME (Filter None) (mer_len_arg args) (canonical_flag args)
                            (sequences w (if_arg args) []) (threads_arg args)),
               Exec_join (pass_calls UPDATE flt (mer_len_arg args) (canonical_flag args)
                            (sequences w (file_arg args)
                               (if generator_given args then generator_pipes w else []))
                            (threads_arg args))]
            else
              [Exec_join (pass_calls COUNT flt (mer_len_arg args) (canonical_flag args)
                            (sequences w (file_arg args)
                               (if generator_given args then generator_pipes w else []))
                            (threads_arg args))]))
        (fst (count_main args w)))
   \<and> op_call PRIME m = Set_mer m \<and> op_call UPDATE m = Update_add m 1
   \<and> op_call COUNT m = Add m 1
   \<and> mer_iterator k True seqs = map canonicalize (mer_iterator k False seqs)"
proof -
  have "prefix
        ((if generator_given args then [Generator_start] else [])
         @ (if if_given args then
              [Exec_join (pass_calls PRIME (Filter None) (mer_len_arg args) (canonical_flag args)
                            (sequences w (if_arg args) []) (threads_arg args)),
               Exec_join (pass_calls UPDATE flt (mer_len_arg args) (canonical_flag args)
                            (sequences w (file_arg args)
                               (if generator_given args then generator_pipes w else []))
                            (threads_arg args))]
            else
              [Exec_join (pass_calls COUNT flt (mer_len_arg args) (canonical_flag args)
                            (sequences w (file_arg args)
                               (if generator_given args then generator_pipes w else []))
                            (threads_arg args))]))
        (fst (count_main args w))"
    if ok: "mer_filter args w = Inr flt"
    using count_main_prefix_main [OF ok]
    by (cases "if_given args"; cases "generator_given args")
       (simp_all add: generator_started_def prime_pass_eq main_pass_eq)
  then show ?thesis
    by (simp add: op_call_def mer_iterator_canonical)
qed

theorem mode_selection_witness:
  "mer_filter (sample_args\<lparr>if_given := True, if_arg := [''genes.fa'']\<rparr>) sample_world
     = Inr (Filter None)
   \<and> prefix
       [Exec_join [[Set_mer [A, C, G, T], Set_mer [C, G, T, A], Set_mer [G, T, A, C],
                    Set_mer [T, A, C, G], Set_mer [A, C, G, T], Done], [Done]],
        Exec_join [[Update_add [A, C, G, T] 1, Update_add [C, G, T, A] 1,
                    Update_add [G, T, A, C] 1, Update_add [T, A, C, G] 1,
                    Update_add [A, C, G, T] 1, Done], [Done]]]
       (fst (count_main (sample_args\<lparr>if_given := True, if_arg := [''genes.fa'']\<rparr>) sample_world))
   \<and> mer_filter sample_args sample_world = Inr (Filter None)
   \<and> prefix
       [Exec_join [[Add [A, C, G, T] 1, Add [C, G, T, A] 1, Add [G, T, A, C] 1,
                    Add [T, A, C, G] 1, Add [A, C, G, T] 1, Done], [Done]]]
       (fst (count_main sample_args sample_world))"
proof -
  have two: "[0..<2] = [0, Suc 0]"
    by (simp add: upt_rec)
  have f1: "mer_filter (sample_args\<lparr>if_given := True, if_arg := [''genes.fa'']\<rparr>) sample_world
     = Inr (Filter None)"
    by (simp add: mer_filter_def sample_args_def)
  have f2: "mer_filter sample_args sample_world = Inr (Filter None)"
    by (simp add: mer_filter_def sample_args_def)
  have p1: "prefix
       [Exec_join [[Set_mer [A, C, G, T], Set_mer [C, G, T, A], Set_mer [G, T, A, C],
                    Set_mer [T, A, C, G], Set_mer [A, C, G, T], Done], [Done]],
        Exec_join [[Update_add [A, C, G, T] 1, Update_add [C, G, T, A] 1,
                    Update_add [G, T, A, C] 1, Update_add [T, A, C, G] 1,
                    Update_add [A, C, G, T] 1, Done], [Done]]]
       (fst (count_main (sample_args\<lparr>if_given := True, if_arg := [''genes.fa'']\<rparr>) sample_world))"
    using mode_selection [of "sample_args\<lparr>if_given := True, if_arg := [''genes.fa'']\<rparr>"
            sample_world "Filter None", THEN conjunct1, rule_format, OF f1]
    by (simp add: two pass_calls_def op_call_def mer_iterator_def
          sample_args_def sample_world_def)
  have p2: "prefix
       [Exec_join [[Add [A, C, G, T] 1, Add [C, G, T, A] 1, Add [G, T, A, C] 1,
                    Add [T, A, C, G] 1, Add [A, C, G, T] 1, Done], [Done]]]
       (fst (count_main sample_args sample_world))"
    using mode_selection [of sample_args sample_world "Filter None",
            THEN conjunct1, rule_format, OF f2]
    by (simp add: two pass_calls_def op_call_def mer_iterator_def
          sample_args_def sample_world_def)
  from f1 p1 f2 p2 show ?thesis by blast
qed

text \<open>
  Claim C10. The priming pass primes every k-mer of the intersection file, with no
  filter, whether or not a Bloom filter is given; the Bloom filter is loaded afterwards,
  so a run that dies while loading it has completed the priming pass.
\<close>

theorem prime_pass_unfiltered:
  "if_given args \<longrightarrow>
     prefix
       ((if generator_given args then [Generator_start] else [])
        @ [Exec_join (map (\<lambda>thid. map Set_mer
               (mer_iterator (mer_len_arg args) (canonical_flag args)
                  (sequences w (if_arg args) [] thid)) @ [Done])
             [0..<threads_arg args])])
       (fst (count_main args w))
     \<and> (\<forall>e. mer_filter args w = Inl e \<longrightarrow>
          fst (count_main args w) =
            (if generator_given args then [Generator_start] else [])
            @ [Exec_join (map (\<lambda>thid. map Set_mer
                 (mer_iterator (mer_len_arg args) (canonical_flag args)
                    (sequences w (if_arg args) [] thid)) @ [Done])
               [0..<threads_arg args])])"
proof
  assume given: "if_given args"
  have pp: "generator_started args @ prime_pass args w =
       (if generator_given args then [Generator_start] else [])
        @ [Exec_join (map (\<lambda>thid. map Set_mer
               (mer_iterator (mer_len_arg args) (canonical_flag args)
                  (sequences w (if_arg args) [] thid)) @ [Done])
             [0..<threads_arg args])]"
    using given
    by (simp add: generator_started_def prime_pass_eq pass_calls_def op_call_def)
  show "prefix
       ((if generator_given args then [Generator_start] else [])
        @ [Exec_join (map (\<lambda>thid. map Set_mer
               (mer_iterator (mer_len_arg args) (canonical_flag args)
                  (sequences w (if_arg args) [] thid)) @ [Done])
             [0..<threads_arg args])])
       (fst (count_main args w))
     \<and> (\<forall>e. mer_filter args w = Inl e \<longrightarrow>
          fst (count_main args w) =
            (if generator_given args then [Generator_start] else [])
            @ [Exec_join (map (\<lambda>thid. map Set_mer
                 (mer_iterator (mer_len_arg args) (canonical_flag args)
                    (sequences w (if_arg args) [] thid)) @ [Done])
               [0..<threads_arg args])])"
    using count_main_prefix [of args w] count_main_load_failed [of args w]
    unfolding pp by auto
qed

theorem prime_pass_unfiltered_witness:
  "if_given (sample_args\<lparr>if_given := True, bf_given := True\<rparr>)
   \<and> bf_given (sample_args\<lparr>if_given := True, bf_given := True\<rparr>)
   \<and> \<not> accepts (Filter_bf (check sample_bf) None) [C, G, T, A]
   \<and> prefix
       [Exec_join [[Set_mer [A, C, G, T], Set_mer [C, G, T, A], Set_mer [G, T, A, C],
                    Set_mer [T, A, C, G], Set_mer [A, C, G, T], Done], [Done]]]
       (fst (count_main (sample_args\<lparr>if_given := True, bf_given := True\<rparr>) sample_world))
   \<and> mer_filter (sample_args\<lparr>if_given := True, bf_given := True\<rparr>)
        (sample_world\<lparr>bf_open := \<lambda>path. missing_bf\<rparr>)
       = Inl (Failed_to_parse ''reads.bc'')
   \<and> fst (count_main (sample_args\<lparr>if_given := True, bf_given := True\<rparr>)
        (sample_world\<lparr>bf_open := \<lambda>path. missing_bf\<rparr>))
       = [Exec_join [[Set_mer [A, C, G, T], Set_mer [C, G, T, A], Set_mer [G, T, A, C],
                      Set_mer [T, A, C, G], Set_mer [A, C, G, T], Done], [Done]]]"
proof -
  let ?args = "sample_args\<lparr>if_given := True, bf_given := True\<rparr>"
  let ?bad = "sample_world\<lparr>bf_open := \<lambda>path. missing_bf\<rparr>"
  have two: "[0..<2] = [0, Suc 0]"
    by (simp add: upt_rec)
  have given: "if_given ?args"
    by simp
  have flt: "\<not> accepts (Filter_bf (check sample_bf) None) [C, G, T, A]"
    by (simp add: sample_bf_def)
  have primed: "prefix
       [Exec_join [[Set_mer [A, C, G, T], Set_mer [C, G, T, A], Set_mer [G, T, A, C],
                    Set_mer [T, A, C, G], Set_mer [A, C, G, T], Done], [Done]]]
       (fst (count_main ?args sample_world))"
    using prime_pass_unfiltered [of ?args sample_world, rule_format, OF given, THEN conjunct1]
    by (simp add: two mer_iterator_def sample_args_def sample_world_def)
  have failed: "mer_filter ?args ?bad = Inl (Failed_to_parse ''reads.bc'')"
    by (simp add: mer_filter_def load_bloom_filter_def sample_args_def sample_world_def
          missing_bf_def)
  have died: "fst (count_main ?args ?bad)
       = [Exec_join [[Set_mer [A, C, G, T], Set_mer [C, G, T, A], Set_mer [G, T, A, C],
                      Set_mer [T, A, C, G], Set_mer [A, C, G, T], Done], [Done]]]"
    using prime_pass_unfiltered [of ?args ?bad, rule_format, OF given, THEN conjunct2,
            rule_format, OF failed]
    by (simp add: two mer_iterator_def sample_args_def sample_world_def)
  from given flt primed failed died show ?thesis
    by simp
qed

section \<open>Writing the result\<close>

lemma uint64_max_unat: "unat uint64_max = 2 ^ 64 - 1"
  by (simp add: uint64_max_def unsigned_minus_1_eq_mask mask_eq_exp_minus_1)

lemma map_nth_upt: "map (\<lambda>i. f (files ! i)) [0..<length files] = map f files"
  by (rule nth_equalityI) simp_all

lemma write_output_events:
  "fst (write_output args w) =
     (if no_write_flag args then []
      else if spilled w = [] then
        [Dump True (if lower_count_given args then Some (lower_count_arg args) else None)
                   (if upper_count_given args then Some (upper_count_arg args) else None)]
      else Dump False None None #
        (if no_merge_flag args then []
         else Merge_files (spilled w @ [final_dump w]) (output_arg args)
                (if lower_count_given args then lower_count_arg args else 0)
                (if upper_count_given args then upper_count_arg args else uint64_max) #
              (if merge_error w = None \<and> \<not> no_unlink_flag args
               then map Unlink (spilled w @ [final_dump w]) else [])))"
proof -
  have "map (\<lambda>i. Unlink ((spilled w @ [final_dump w]) ! i)) [0..<length (spilled w @ [final_dump w])]
        = map Unlink (spilled w @ [final_dump w])"
    by (rule map_nth_upt)
  then show ?thesis
    by (cases "merge_error w") (simp_all add: write_output_def Let_def)
qed

lemma write_output_status:
  "snd (write_output args w) =
     (if \<not> no_write_flag args \<and> spilled w \<noteq> [] \<and> \<not> no_merge_flag args
      then (case merge_error w of Some msg \<Rightarrow> Inl (Merge_failed msg) | None \<Rightarrow> Inr ())
      else Inr ())"
  by (cases "merge_error w") (simp_all add: write_output_def Let_def)

lemma prime_pass_no_output:
  "filter is_output (generator_started args @ prime_pass args w) = []"
  by (simp add: generator_started_def prime_pass_def)

lemma main_pass_no_output:
  "filter is_output (main_pass args w flt) = []"
  by (simp add: main_pass_def)

lemma write_output_all_output:
  "filter is_output (fst (write_output args w)) = fst (write_output args w)"
  by (simp add: write_output_events)

lemma count_main_outputs:
  "filter is_output (fst (count_main args w)) =
     (case mer_filter args w of
        Inl e \<Rightarrow> []
      | Inr flt \<Rightarrow>
          if generator_given args \<and> \<not> generator_wait w then []
          else fst (write_output args w)
               @ (if \<not> isl (snd (write_output args w)) \<and> timing_given args
                  then [Timing (timing_arg args)] else []))"
proof (cases "mer_filter args w")
  case (Inl e)
  then show ?thesis
    by (simp add: count_main_load_failed prime_pass_no_output del: filter_append)
next
  case (Inr flt)
  show ?thesis
  proof (cases "generator_given args \<and> \<not> generator_wait w")
    case True
    with Inr show ?thesis
      using prime_pass_no_output [of args w] main_pass_no_output [of args w flt]
      by (simp add: count_main_generators_failed)
  next
    case False
    with Inr have "count_main args w =
     (generator_started args @ prime_pass args w @ main_pass args w flt
        @ (if generator_given args then [Generator_wait] else [])
        @ fst (write_output args w)
        @ (if \<not> isl (snd (write_output args w)) \<and> timing_given args
           then [Timing (timing_arg args)] else []),
      case snd (write_output args w) of Inl e \<Rightarrow> Inl e | Inr u \<Rightarrow> Inr 0)"
      by (intro count_main_counted) auto
    with Inr False show ?thesis
      using prime_pass_no_output [of args w] main_pass_no_output [of args w flt]
      by (auto simp: write_output_all_output)
  qed
qed

lemma count_main_status:
  "snd (count_main args w) =
     (case mer_filter args w of
        Inl e \<Rightarrow> Inl e
      | Inr flt \<Rightarrow>
          if generator_given args \<and> \<not> generator_wait w then Inl Generators_failed
          else (case snd (write_output args w) of Inl e \<Rightarrow> Inl e | Inr u \<Rightarrow> Inr 0))"
proof (cases "mer_filter args w")
  case (Inl e)
  then show ?thesis
    by (simp add: count_main_load_failed)
next
  case (Inr flt)
  show ?thesis
  proof (cases "generator_given args \<and> \<not> generator_wait w")
    case True
    with Inr show ?thesis
      by (simp add: count_main_generators_failed)
  next
    case False
    with Inr have "count_main args w =
     (generator_started args @ prime_pass args w @ main_pass args w flt
        @ (if generator_given args then [Generator_wait] else [])
        @ fst (write_output args w)
        @ (if \<not> isl (snd (write_output args w)) \<and> timing_given args
           then [Timing (timing_arg args)] else []),
      case snd (write_output args w) of Inl e \<Rightarrow> Inl e | Inr u \<Rightarrow> Inr 0)"
      by (intro count_main_counted) auto
    with Inr False show ?thesis
      by auto
  qed
qed

lemma outputs_reached:
  "filter is_output (fst (count_main args w)) =
     (if reaches_output args w then
        fst (write_output args w)
        @ (if \<not> isl (snd (write_output args w)) \<and> timing_given args
           then [Timing (timing_arg args)] else [])
      else [])"
  by (cases "mer_filter args w") (auto simp: count_main_outputs reaches_output_def)

lemma status_reached:
  "reaches_output args w \<Longrightarrow>
   snd (count_main args w) = (case snd (write_output args w) of Inl e \<Rightarrow> Inl e | Inr u \<Rightarrow> Inr 0)"
  by (cases "mer_filter args w") (auto simp: count_main_status reaches_output_def)

lemma status_not_reached:
  "\<not> reaches_output args w \<Longrightarrow> isl (snd (count_main args w))"
  by (cases "mer_filter args w") (auto simp: count_main_status reaches_output_def)

lemma filter_through_output:
  "(\<And>ev. P ev \<Longrightarrow> is_output ev) \<Longrightarrow> filter P evs = filter P (filter is_output evs)"
  by (induction evs) auto

lemma is_dump_output: "is_dump ev \<Longrightarrow> is_output ev"
  by (cases ev) simp_all

lemma is_merge_output: "is_merge ev \<Longrightarrow> is_output ev"
  by (cases ev) simp_all

lemma is_unlink_output: "is_unlink ev \<Longrightarrow> is_output ev"
  by (cases ev) simp_all

lemma dumps_and_merges:
  "filter (\<lambda>ev. is_dump ev \<or> is_merge ev) (fst (count_main args w)) =
     (if reaches_output args w \<and> \<not> no_write_flag args then
        (if spilled w = [] then
           [Dump True (if lower_count_given args then Some (lower_count_arg args) else None)
                      (if upper_count_given args then Some (upper_count_arg args) else None)]
         else if no_merge_flag args then [Dump False None None]
         else [Dump False None None,
               Merge_files (spilled w @ [final_dump w]) (output_arg args)
                 (if lower_count_given args then lower_count_arg args else 0)
                 (if upper_count_given args then upper_count_arg args else uint64_max)])
      else [])"
proof -
  have "filter (\<lambda>ev. is_dump ev \<or> is_merge ev) (fst (count_main args w)) =
        filter (\<lambda>ev. is_dump ev \<or> is_merge ev) (filter is_output (fst (count_main args w)))"
    by (rule filter_through_output) (auto dest: is_dump_output is_merge_output)
  then show ?thesis
    by (simp add: outputs_reached write_output_events comp_def)
qed

lemma dumps:
  "filter is_dump (fst (count_main args w)) =
     (if reaches_output args w \<and> \<not> no_write_flag args then
        (if spilled w = [] then
           [Dump True (if lower_count_given args then Some (lower_count_arg args) else None)
                      (if upper_count_given args then Some (upper_count_arg args) else None)]
         else [Dump False None None])
      else [])"
proof -
  have "filter is_dump (fst (count_main args w)) =
        filter is_dump (filter is_output (fst (count_main args w)))"
    by (rule filter_through_output) (auto dest: is_dump_output)
  then show ?thesis
    by (simp add: outputs_reached write_output_events comp_def)
qed

lemma merges_and_unlinks:
  "filter (\<lambda>ev. is_merge ev \<or> is_unlink ev) (fst (count_main args w)) =
     (if reaches_output args w \<and> \<not> no_write_flag args \<and> spilled w \<noteq> []
         \<and> \<not> no_merge_flag args then
        Merge_files (spilled w @ [final_dump w]) (output_arg args)
          (if lower_count_given args then lower_count_arg args else 0)
          (if upper_count_given args then upper_count_arg args else uint64_max)
        # (if merge_error w = None \<and> \<not> no_unlink_flag args
           then map Unlink (spilled w @ [final_dump w]) else [])
      else [])"
proof -
  have "filter (\<lambda>ev. is_merge ev \<or> is_unlink ev) (fst (count_main args w)) =
        filter (\<lambda>ev. is_merge ev \<or> is_unlink ev) (filter is_output (fst (count_main args w)))"
    by (rule filter_through_output) (auto dest: is_unlink_output is_merge_output)
  then show ?thesis
    by (simp add: outputs_reached write_output_events comp_def filter_map)
qed

lemma merges:
  "filter is_merge (fst (count_main args w)) =
     (if reaches_output args w \<and> \<not> no_write_flag args \<and> spilled w \<noteq> []
         \<and> \<not> no_merge_flag args then
        [Merge_files (spilled w @ [final_dump w]) (output_arg args)
          (if lower_count_given args then lower_count_arg args else 0)
          (if upper_count_given args then upper_count_arg args else uint64_max)]
      else [])"
proof -
  have "filter is_merge (fst (count_main args w)) =
        filter is_merge (filter is_output (fst (count_main args w)))"
    by (rule filter_through_output) (auto dest: is_merge_output)
  then show ?thesis
    by (simp add: outputs_reached write_output_events comp_def filter_map)
qed

lemma unlinks:
  "filter is_unlink (fst (count_main args w)) =
     (if reaches_output args w \<and> \<not> no_write_flag args \<and> spilled w \<noteq> []
         \<and> \<not> no_merge_flag args \<and> merge_error w = None \<and> \<not> no_unlink_flag args
      then map Unlink (spilled w @ [final_dump w]) else [])"
proof -
  have "filter is_unlink (fst (count_main args w)) =
        filter is_unlink (filter is_output (fst (count_main args w)))"
    by (rule filter_through_output) (auto dest: is_unlink_output)
  then show ?thesis
    by (simp add: outputs_reached write_output_events comp_def filter_map)
qed

lemma sample_reaches_output:
  "\<not> bf_given args \<Longrightarrow> generator_given args \<longrightarrow> generator_wait w \<Longrightarrow> reaches_output args w"
  by (simp add: reaches_output_def mer_filter_def)

text \<open>
  Claim C6, as amended. Once counting is over and unless writing is disabled: with no
  intermediate dump file the driver makes exactly one dump, with \<^verbatim>\<open>one_file(true)\<close> and
  the lower and upper bounds that were given; with at least one intermediate dump file
  it makes one dump without bounds and then, unless merging is disabled, merges all
  dump files into the output with bounds that default to 0 and \<open>2^64 - 1\<close>. A dump is
  given a bound only when no intermediate dump file exists, and is then the only dump
  of the driver.
\<close>

theorem final_dump_policy:
  "(reaches_output args w \<and> \<not> no_write_flag args \<longrightarrow>
      filter (\<lambda>ev. is_dump ev \<or> is_merge ev) (fst (count_main args w)) =
        (if spilled w = [] then
           [Dump True (if lower_count_given args then Some (lower_count_arg args) else None)
                      (if upper_count_given args then Some (upper_count_arg args) else None)]
         else if no_merge_flag args then [Dump False None None]
         else [Dump False None None,
               Merge_files (spilled w @ [final_dump w]) (output_arg args)
                 (if lower_count_given args then lower_count_arg args else 0)
                 (if upper_count_given args then upper_count_arg args else uint64_max)]))
   \<and> unat uint64_max = 2 ^ 64 - 1
   \<and> (Dump one_file lo hi \<in> set (fst (count_main args w)) \<and> (lo \<noteq> None \<or> hi \<noteq> None) \<longrightarrow>
        spilled w = [] \<and> one_file
        \<and> filter is_dump (fst (count_main args w)) = [Dump one_file lo hi])"
proof -
  have bounded: "spilled w = [] \<and> one_file
        \<and> filter is_dump (fst (count_main args w)) = [Dump one_file lo hi]"
    if mem: "Dump one_file lo hi \<in> set (fst (count_main args w))"
      and bound: "lo \<noteq> None \<or> hi \<noteq> None"
  proof -
    from mem have "Dump one_file lo hi \<in> set (filter is_dump (fst (count_main args w)))"
      by simp
    with bound show ?thesis
      by (auto simp: dumps split: if_splits)
  qed
  have "reaches_output args w \<and> \<not> no_write_flag args \<longrightarrow>
      filter (\<lambda>ev. is_dump ev \<or> is_merge ev) (fst (count_main args w)) =
        (if spilled w = [] then
           [Dump True (if lower_count_given args then Some (lower_count_arg args) else None)
                      (if upper_count_given args then Some (upper_count_arg args) else None)]
         else if no_merge_flag args then [Dump False None None]
         else [Dump False None None,
               Merge_files (spilled w @ [final_dump w]) (output_arg args)
                 (if lower_count_given args then lower_count_arg args else 0)
                 (if upper_count_given args then upper_count_arg args else uint64_max)])"
    by (simp add: dumps_and_merges)
  with bounded uint64_max_unat show ?thesis
    by blast
qed

theorem final_dump_policy_witness:
  "reaches_output (sample_args\<lparr>lower_count_given := True, lower_count_arg := 2\<rparr>) sample_world
   \<and> \<not> no_write_flag (sample_args\<lparr>lower_count_given := True, lower_count_arg := 2\<rparr>)
   \<and> filter (\<lambda>ev. is_dump ev \<or> is_merge ev)
       (fst (count_main (sample_args\<lparr>lower_count_given := True, lower_count_arg := 2\<rparr>)
               sample_world))
     = [Dump True (Some 2) None]
   \<and> Dump True (Some 2) None
       \<in> set (fst (count_main (sample_args\<lparr>lower_count_given := True, lower_count_arg := 2\<rparr>)
                     sample_world))
   \<and> spilled sample_world = []
   \<and> reaches_output sample_args spilled_world
   \<and> filter (\<lambda>ev. is_dump ev \<or> is_merge ev) (fst (count_main sample_args spilled_world))
     = [Dump False None None,
        Merge_files [''mer_counts.jf_0'', ''mer_counts.jf_1''] ''mer_counts.jf'' 0 uint64_max]"
proof -
  let ?args = "sample_args\<lparr>lower_count_given := True, lower_count_arg := 2\<rparr>"
  have r2: "reaches_output sample_args spilled_world"
    by (rule sample_reaches_output)
       (simp_all add: sample_args_def sample_world_def spilled_world_def)
  have nw2: "\<not> no_write_flag sample_args"
    by (simp add: sample_args_def)
  have ev2: "filter (\<lambda>ev. is_dump ev \<or> is_merge ev) (fst (count_main sample_args spilled_world))
     = [Dump False None None,
        Merge_files [''mer_counts.jf_0'', ''mer_counts.jf_1''] ''mer_counts.jf'' 0 uint64_max]"
    using final_dump_policy [of sample_args spilled_world, THEN conjunct1] r2 nw2
    by (simp add: sample_args_def sample_world_def spilled_world_def)
  have r: "reaches_output ?args sample_world"
    by (rule sample_reaches_output) (simp_all add: sample_args_def)
  have nw: "\<not> no_write_flag ?args"
    by (simp add: sample_args_def)
  have ev: "filter (\<lambda>ev. is_dump ev \<or> is_merge ev) (fst (count_main ?args sample_world))
     = [Dump True (Some 2) None]"
    using final_dump_policy [of ?args sample_world, THEN conjunct1] r nw
    by (simp add: sample_args_def sample_world_def)
  have "Dump True (Some 2) None
          \<in> set (filter (\<lambda>ev. is_dump ev \<or> is_merge ev) (fst (count_main ?args sample_world)))"
    unfolding ev by simp
  then have mem: "Dump True (Some 2) None \<in> set (fst (count_main ?args sample_world))"
    by simp
  have "spilled sample_world = []"
    using final_dump_policy [of ?args sample_world True "Some 2" None] mem by simp
  with r nw ev mem r2 ev2 show ?thesis by blast
qed

text \<open>
  Claim C6, as stated, has every run with an intermediate dump file merge its dump
  files. With the no-merge flag the driver dumps and returns without merging.
\<close>

theorem no_merge_flag_skips_merge:
  "reaches_output (sample_args\<lparr>no_merge_flag := True\<rparr>) spilled_world
   \<and> \<not> no_write_flag (sample_args\<lparr>no_merge_flag := True\<rparr>)
   \<and> spilled spilled_world = [''mer_counts.jf_0'']
   \<and> filter is_merge (fst (count_main (sample_args\<lparr>no_merge_flag := True\<rparr>) spilled_world)) = []
   \<and> snd (count_main (sample_args\<lparr>no_merge_flag := True\<rparr>) spilled_world) = Inr 0"
proof -
  let ?args = "sample_args\<lparr>no_merge_flag := True\<rparr>"
  have r: "reaches_output ?args spilled_world"
    by (rule sample_reaches_output)
       (simp_all add: sample_args_def sample_world_def spilled_world_def)
  have m: "filter is_merge (fst (count_main ?args spilled_world)) = []"
    by (simp add: merges)
  have s: "snd (count_main ?args spilled_world) = Inr 0"
    by (simp add: status_reached [OF r] write_output_status)
  from r m s show ?thesis
    by (simp add: sample_args_def spilled_world_def)
qed

text \<open>
  Claim C7. When a generator command has failed the run dies without writing, merging or
  deleting anything; when \<^verbatim>\<open>merge_files\<close> throws, the run dies with the merger's message
  and the call of \<^verbatim>\<open>merge_files\<close> is the last thing it did; a run that returns, returns
  0, its generators succeeded and its merge, if any, did not throw.
\<close>

theorem fatal_conditions:
  "(generator_given args \<and> \<not> generator_wait w \<longrightarrow>
      isl (snd (count_main args w)) \<and> filter is_output (fst (count_main args w)) = []
      \<and> (\<not> isl (mer_filter args w) \<longrightarrow>
           snd (count_main args w) = Inl Generators_failed
           \<and> last (fst (count_main args w)) = Generator_wait))
   \<and> (filter is_merge (fst (count_main args w)) \<noteq> [] \<and> merge_error w = Some msg \<longrightarrow>
        snd (count_main args w) = Inl (Merge_failed msg)
        \<and> is_merge (last (fst (count_main args w))))
   \<and> (snd (count_main args w) = Inr r \<longrightarrow>
        r = 0 \<and> (generator_given args \<longrightarrow> generator_wait w)
        \<and> (filter is_merge (fst (count_main args w)) \<noteq> [] \<longrightarrow> merge_error w = None))"
proof (intro conjI impI)
  assume g: "generator_given args \<and> \<not> generator_wait w"
  then have nr: "\<not> reaches_output args w"
    by (simp add: reaches_output_def)
  show "isl (snd (count_main args w))"
    using nr by (rule status_not_reached)
  show "filter is_output (fst (count_main args w)) = []"
    using nr by (simp add: outputs_reached)
  assume "\<not> isl (mer_filter args w)"
  then obtain flt where ok: "mer_filter args w = Inr flt"
    by (cases "mer_filter args w") simp_all
  show "snd (count_main args w) = Inl Generators_failed"
    using g ok by (simp add: count_main_generators_failed)
  show "last (fst (count_main args w)) = Generator_wait"
    using g ok by (simp add: count_main_generators_failed)
next
  assume a: "filter is_merge (fst (count_main args w)) \<noteq> [] \<and> merge_error w = Some msg"
  then have r: "reaches_output args w" and c: "\<not> no_write_flag args" "spilled w \<noteq> []"
      "\<not> no_merge_flag args" and e: "merge_error w = Some msg"
    by (simp_all add: merges split: if_splits)
  from r obtain flt where ok: "mer_filter args w = Inr flt"
      and gen: "generator_given args \<longrightarrow> generator_wait w"
    by (cases "mer_filter args w") (simp_all add: reaches_output_def)
  show "snd (count_main args w) = Inl (Merge_failed msg)"
    using c e by (simp add: status_reached [OF r] write_output_status)
  show "is_merge (last (fst (count_main args w)))"
    using c e
    by (simp add: count_main_counted [OF ok gen] write_output_events write_output_status)
next
  assume ret: "snd (count_main args w) = Inr r"
  then have re: "reaches_output args w"
    using status_not_reached [of args w] by auto
  show "r = 0"
    using ret by (simp add: status_reached [OF re] split: sum.splits)
  show "generator_wait w" if "generator_given args"
    using re that by (simp add: reaches_output_def)
  show "merge_error w = None" if "filter is_merge (fst (count_main args w)) \<noteq> []"
    using ret that
    by (cases "merge_error w")
       (simp_all add: merges status_reached [OF re] write_output_status split: if_splits)
qed

theorem fatal_conditions_witness:
  "generator_given (sample_args\<lparr>generator_given := True\<rparr>)
   \<and> \<not> generator_wait (sample_world\<lparr>generator_wait := False\<rparr>)
   \<and> snd (count_main (sample_args\<lparr>generator_given := True\<rparr>)
               (sample_world\<lparr>generator_wait := False\<rparr>)) = Inl Generators_failed
   \<and> filter is_output (fst (count_main (sample_args\<lparr>generator_given := True\<rparr>)
               (sample_world\<lparr>generator_wait := False\<rparr>))) = []
   \<and> filter is_merge (fst (count_main sample_args
               (spilled_world\<lparr>merge_error := Some ''bad header''\<rparr>))) \<noteq> []
   \<and> snd (count_main sample_args (spilled_world\<lparr>merge_error := Some ''bad header''\<rparr>))
       = Inl (Merge_failed ''bad header'')
   \<and> snd (count_main sample_args sample_world) = Inr 0"
proof -
  let ?ga = "sample_args\<lparr>generator_given := True\<rparr>"
  let ?gw = "sample_world\<lparr>generator_wait := False\<rparr>"
  let ?mw = "spilled_world\<lparr>merge_error := Some ''bad header''\<rparr>"
  have g: "generator_given ?ga \<and> \<not> generator_wait ?gw"
    by (simp add: sample_world_def)
  have gf: "\<not> isl (mer_filter ?ga ?gw)"
    by (simp add: mer_filter_def sample_args_def)
  have g1: "snd (count_main ?ga ?gw) = Inl Generators_failed
            \<and> filter is_output (fst (count_main ?ga ?gw)) = []"
    using fatal_conditions [of ?ga ?gw, THEN conjunct1] g gf by blast
  have m: "filter is_merge (fst (count_main sample_args ?mw)) \<noteq> []"
    by (simp add: merges sample_reaches_output sample_args_def sample_world_def spilled_world_def)
  have me: "merge_error ?mw = Some ''bad header''"
    by simp
  have m1: "snd (count_main sample_args ?mw) = Inl (Merge_failed ''bad header'')"
    using fatal_conditions [of sample_args ?mw "''bad header''", THEN conjunct2, THEN conjunct1]
      m me by blast
  have r: "snd (count_main sample_args sample_world) = Inr 0"
    by (simp add: status_reached sample_reaches_output write_output_status
          sample_args_def sample_world_def)
  have "(0::int) = 0 \<and> (generator_given sample_args \<longrightarrow> generator_wait sample_world)"
    using fatal_conditions [of sample_args sample_world _ 0, THEN conjunct2, THEN conjunct2] r
    by blast
  with g g1 m m1 r show ?thesis
    by blast
qed

text \<open>
  Claim C8. The dump files are unlinked only after a call of \<^verbatim>\<open>merge_files\<close>, only when
  it did not throw, and only without the no-unlink flag; when it throws the run dies with
  nothing unlinked.
\<close>

theorem unlink_after_successful_merge:
  "filter (\<lambda>ev. is_merge ev \<or> is_unlink ev) (fst (count_main args w)) =
     (if filter is_merge (fst (count_main args w)) = [] then []
      else Merge_files (spilled w @ [final_dump w]) (output_arg args)
             (if lower_count_given args then lower_count_arg args else 0)
             (if upper_count_given args then upper_count_arg args else uint64_max)
           # (if merge_error w = None \<and> \<not> no_unlink_flag args
              then map Unlink (spilled w @ [final_dump w]) else []))
   \<and> (merge_error w = Some msg \<longrightarrow>
        filter is_unlink (fst (count_main args w)) = []
        \<and> (filter is_merge (fst (count_main args w)) \<noteq> [] \<longrightarrow>
             snd (count_main args w) = Inl (Merge_failed msg)))
   \<and> (no_unlink_flag args \<longrightarrow> filter is_unlink (fst (count_main args w)) = [])"
proof (intro conjI impI)
  show "filter (\<lambda>ev. is_merge ev \<or> is_unlink ev) (fst (count_main args w)) =
     (if filter is_merge (fst (count_main args w)) = [] then []
      else Merge_files (spilled w @ [final_dump w]) (output_arg args)
             (if lower_count_given args then lower_count_arg args else 0)
             (if upper_count_given args then upper_count_arg args else uint64_max)
           # (if merge_error w = None \<and> \<not> no_unlink_flag args
              then map Unlink (spilled w @ [final_dump w]) else []))"
    by (simp add: merges_and_unlinks merges)
next
  assume e: "merge_error w = Some msg"
  then show "filter is_unlink (fst (count_main args w)) = []"
    by (simp add: unlinks)
  assume m: "filter is_merge (fst (count_main args w)) \<noteq> []"
  then have r: "reaches_output args w" and c: "\<not> no_write_flag args" "spilled w \<noteq> []"
      "\<not> no_merge_flag args"
    by (simp_all add: merges split: if_splits)
  show "snd (count_main args w) = Inl (Merge_failed msg)"
    using c e by (simp add: status_reached [OF r] write_output_status)
next
  assume "no_unlink_flag args"
  then show "filter is_unlink (fst (count_main args w)) = []"
    by (simp add: unlinks)
qed

theorem unlink_after_successful_merge_witness:
  "filter (\<lambda>ev. is_merge ev \<or> is_unlink ev) (fst (count_main sample_args spilled_world)) =
     [Merge_files [''mer_counts.jf_0'', ''mer_counts.jf_1''] ''mer_counts.jf'' 0 uint64_max,
      Unlink ''mer_counts.jf_0'', Unlink ''mer_counts.jf_1'']
   \<and> merge_error (spilled_world\<lparr>merge_error := Some ''bad header''\<rparr>) = Some ''bad header''
   \<and> filter is_merge (fst (count_main sample_args
         (spilled_world\<lparr>merge_error := Some ''bad header''\<rparr>))) \<noteq> []
   \<and> filter is_unlink (fst (count_main sample_args
         (spilled_world\<lparr>merge_error := Some ''bad header''\<rparr>))) = []
   \<and> snd (count_main sample_args (spilled_world\<lparr>merge_error := Some ''bad header''\<rparr>))
       = Inl (Merge_failed ''bad header'')
   \<and> no_unlink_flag (sample_args\<lparr>no_unlink_flag := True\<rparr>)
   \<and> filter is_unlink (fst (count_main (sample_args\<lparr>no_unlink_flag := True\<rparr>) spilled_world))
       = []"
proof -
  let ?mw = "spilled_world\<lparr>merge_error := Some ''bad header''\<rparr>"
  let ?na = "sample_args\<lparr>no_unlink_flag := True\<rparr>"
  have m0: "filter is_merge (fst (count_main sample_args spilled_world)) \<noteq> []"
    by (simp add: merges sample_reaches_output sample_args_def sample_world_def spilled_world_def)
  have a: "filter (\<lambda>ev. is_merge ev \<or> is_unlink ev) (fst (count_main sample_args spilled_world)) =
     [Merge_files [''mer_counts.jf_0'', ''mer_counts.jf_1''] ''mer_counts.jf'' 0 uint64_max,
      Unlink ''mer_counts.jf_0'', Unlink ''mer_counts.jf_1'']"
    using unlink_after_successful_merge [of sample_args spilled_world, THEN conjunct1] m0
    by (simp add: sample_args_def sample_world_def spilled_world_def)
  have m: "filter is_merge (fst (count_main sample_args ?mw)) \<noteq> []"
    by (simp add: merges sample_reaches_output sample_args_def sample_world_def spilled_world_def)
  have me: "merge_error ?mw = Some ''bad header''"
    by simp
  have b: "filter is_unlink (fst (count_main sample_args ?mw)) = []
           \<and> snd (count_main sample_args ?mw) = Inl (Merge_failed ''bad header'')"
    using unlink_after_successful_merge [of sample_args ?mw "''bad header''",
            THEN conjunct2, THEN conjunct1] m me
    by blast
  have nu: "no_unlink_flag ?na"
    by simp
  have c: "filter is_unlink (fst (count_main ?na spilled_world)) = []"
    using unlink_after_successful_merge [of ?na spilled_world, THEN conjunct2, THEN conjunct2] nu
    by blast
  from a m me b nu c show ?thesis
    by blast
qed

section \<open>The Bloom filter in a run\<close>

lemma write_output_no_exec_join:
  "filter is_exec_join (fst (write_output args w)) = []"
  by (simp add: write_output_events)

lemma count_main_exec_joins:
  assumes "mer_filter args w = Inr flt"
  shows "filter is_exec_join (fst (count_main args w)) = prime_pass args w @ main_pass args w flt"
proof (cases "generator_given args \<longrightarrow> generator_wait w")
  case True
  then show ?thesis
    by (simp add: count_main_counted [OF assms True] write_output_no_exec_join
          generator_started_def prime_pass_def main_pass_def)
next
  case False
  then show ?thesis
    by (simp add: count_main_generators_failed [OF assms]
          generator_started_def prime_pass_def main_pass_def)
qed

lemma main_pass_filtered:
  assumes "bf_given args" and "mer_filter args w = Inr flt"
    and "check (bf_open w (bf_arg args)) m \<le> 1"
  shows "Some m \<notin> call_key ` set (concat (map exec_calls (main_pass args w flt)))"
proof -
  from assms(1,2) have flt: "flt = Filter_bf (check (bf_open w (bf_arg args))) None"
    using mer_filter_loaded [of args w] by simp
  have "\<not> accepts flt m"
    using assms(3) by (simp add: flt)
  then show ?thesis
    by (auto simp: main_pass_eq pass_calls_def call_key_op_call)
qed

text \<open>
  Claim C3, as amended. A k-mer passes the Bloom-filter predicate exactly when its
  estimate is greater than 1 and every earlier predicate of the chain accepts it; a
  worker whose filter is the Bloom-filter predicate makes no call on the table for a
  k-mer whose estimate is 0 or 1, in any mode. In a run with a Bloom filter, the filter
  of the main pass is this predicate over the loaded counter, the passes of the run are
  the priming pass, if any, and the main pass, and no worker of the main pass makes a
  call on the table for a k-mer whose estimate is 0 or 1.
\<close>

theorem filter_bf_threshold:
  "(accepts (Filter_bf counter prev) m \<longleftrightarrow>
      1 < counter m \<and> (\<forall>p. prev = Some p \<longrightarrow> (\<forall>q \<in> set (chain p). own_test q m)))
   \<and> (counter m \<le> 1 \<longrightarrow>
        Some m \<notin> call_key ` set (start k canonical
                      (new_mer_counter parser op (Some (Filter_bf counter prev))) thid))
   \<and> (bf_given args \<and> \<not> isl (mer_filter args w) \<longrightarrow>
        mer_filter args w = Inr (Filter_bf (check (bf_open w (bf_arg args))) None))
   \<and> (bf_given args \<and> mer_filter args w = Inr flt \<longrightarrow>
        filter is_exec_join (fst (count_main args w)) = prime_pass args w @ main_pass args w flt
        \<and> (check (bf_open w (bf_arg args)) m \<le> 1 \<longrightarrow>
             Some m \<notin> call_key ` set (concat (map exec_calls (main_pass args w flt)))))"
proof (intro conjI)
  show "accepts (Filter_bf counter prev) m \<longleftrightarrow>
      1 < counter m \<and> (\<forall>p. prev = Some p \<longrightarrow> (\<forall>q \<in> set (chain p). own_test q m))"
    by (cases prev) (simp_all add: accepts_chain)
next
  show "counter m \<le> 1 \<longrightarrow>
        Some m \<notin> call_key ` set (start k canonical
                      (new_mer_counter parser op (Some (Filter_bf counter prev))) thid)"
    by (auto simp: start_eq new_mer_counter_def call_key_op_call)
next
  show "bf_given args \<and> \<not> isl (mer_filter args w) \<longrightarrow>
        mer_filter args w = Inr (Filter_bf (check (bf_open w (bf_arg args))) None)"
    by (simp add: mer_filter_loaded)
next
  show "bf_given args \<and> mer_filter args w = Inr flt \<longrightarrow>
        filter is_exec_join (fst (count_main args w)) = prime_pass args w @ main_pass args w flt
        \<and> (check (bf_open w (bf_arg args)) m \<le> 1 \<longrightarrow>
             Some m \<notin> call_key ` set (concat (map exec_calls (main_pass args w flt))))"
    using count_main_exec_joins [of args w flt] main_pass_filtered [of args w flt m]
    by blast
qed

theorem filter_bf_threshold_witness:
  "accepts (Filter_bf (check sample_bf) (Some (Filter None))) [A, C, G, T]
   \<and> check sample_bf [C, G, T, A] \<le> 1
   \<and> Some [C, G, T, A] \<notin> call_key ` set (start 4 False
        (new_mer_counter (sequences sample_world [] []) COUNT
           (Some (Filter_bf (check sample_bf) (Some (Filter None))))) 0)
   \<and> bf_given (sample_args\<lparr>bf_given := True\<rparr>)
   \<and> mer_filter (sample_args\<lparr>bf_given := True\<rparr>) sample_world
       = Inr (Filter_bf (check sample_bf) None)
   \<and> main_pass (sample_args\<lparr>bf_given := True\<rparr>) sample_world (Filter_bf (check sample_bf) None)
       = [Exec_join [[Add [A, C, G, T] 1, Add [A, C, G, T] 1, Done], [Done]]]
   \<and> filter is_exec_join (fst (count_main (sample_args\<lparr>bf_given := True\<rparr>) sample_world))
       = [Exec_join [[Add [A, C, G, T] 1, Add [A, C, G, T] 1, Done], [Done]]]
   \<and> Some [C, G, T, A] \<notin> call_key ` set (concat (map exec_calls
        (main_pass (sample_args\<lparr>bf_given := True\<rparr>) sample_world
           (Filter_bf (check sample_bf) None))))"
proof -
  let ?args = "sample_args\<lparr>bf_given := True\<rparr>"
  let ?flt = "Filter_bf (check sample_bf) None"
  have two: "[0..<2] = [0, Suc 0]"
    by (simp add: upt_rec)
  have acc: "accepts (Filter_bf (check sample_bf) (Some (Filter None))) [A, C, G, T]"
    using filter_bf_threshold [of "check sample_bf" "Some (Filter None)" "[A, C, G, T]",
            THEN conjunct1]
    by (simp add: sample_bf_def)
  have low: "check sample_bf [C, G, T, A] \<le> 1"
    by (simp add: sample_bf_def)
  have sup: "Some [C, G, T, A] \<notin> call_key ` set (start 4 False
        (new_mer_counter (sequences sample_world [] []) COUNT
           (Some (Filter_bf (check sample_bf) (Some (Filter None))))) 0)"
    using filter_bf_threshold [of "check sample_bf" "Some (Filter None)" "[C, G, T, A]" 4 False
           "sequences sample_world [] []" COUNT 0, THEN conjunct2, THEN conjunct1] low
    by blast
  have given: "bf_given ?args"
    by simp
  have ok: "\<not> isl (mer_filter ?args sample_world)"
    by (simp add: mer_filter_def load_bloom_filter_def new_bloom_counter_def stream_read_def
          sample_args_def sample_world_def sample_bf_def)
  have opened: "bf_open sample_world (bf_arg ?args) = sample_bf"
    by (simp add: sample_world_def)
  have mf: "mer_filter ?args sample_world = Inr ?flt"
    using filter_bf_threshold [of _ _ _ _ _ _ _ _ ?args sample_world,
            THEN conjunct2, THEN conjunct2, THEN conjunct1] given ok
    unfolding opened by blast
  have main: "main_pass ?args sample_world ?flt
       = [Exec_join [[Add [A, C, G, T] 1, Add [A, C, G, T] 1, Done], [Done]]]"
    by (simp add: two main_pass_eq pass_calls_def op_call_def mer_iterator_def
          sample_args_def sample_world_def sample_bf_def)
  have prime: "prime_pass ?args sample_world = []"
    by (simp add: prime_pass_def sample_args_def)
  have low': "check (bf_open sample_world (bf_arg ?args)) [C, G, T, A] \<le> 1"
    unfolding opened by (rule low)
  have run: "filter is_exec_join (fst (count_main ?args sample_world))
               = prime_pass ?args sample_world @ main_pass ?args sample_world ?flt
             \<and> Some [C, G, T, A] \<notin> call_key ` set (concat (map exec_calls
                 (main_pass ?args sample_world ?flt)))"
    using filter_bf_threshold [of _ _ "[C, G, T, A]" _ _ _ _ _ ?args sample_world ?flt,
            THEN conjunct2, THEN conjunct2, THEN conjunct2] given mf low'
    by blast
  from run have joins: "filter is_exec_join (fst (count_main ?args sample_world))
       = [Exec_join [[Add [A, C, G, T] 1, Add [A, C, G, T] 1, Done], [Done]]]"
    unfolding prime main by simp
  from acc low sup given mf main joins run show ?thesis
    by blast
qed

text \<open>
  Claim C3, as stated, has every k-mer with estimate 0 or 1 kept from the table when a
  Bloom filter is supplied. With an intersection file as well, the priming pass runs
  before the filter is loaded and calls \<^verbatim>\<open>set\<close> for CGTA, whose estimate is 1.
\<close>

theorem prime_pass_sets_low_estimates:
  "bf_given (sample_args\<lparr>if_given := True, bf_given := True\<rparr>)
   \<and> check (bf_open sample_world (bf_arg (sample_args\<lparr>if_given := True, bf_given := True\<rparr>)))
       [C, G, T, A] = 1
   \<and> count_main (sample_args\<lparr>if_given := True, bf_given := True\<rparr>) sample_world
       = ([Exec_join [[Set_mer [A, C, G, T], Set_mer [C, G, T, A], Set_mer [G, T, A, C],
                       Set_mer [T, A, C, G], Set_mer [A, C, G, T], Done], [Done]],
           Exec_join [[Update_add [A, C, G, T] 1, Update_add [A, C, G, T] 1, Done], [Done]],
           Dump True None None],
          Inr 0)"
proof -
  let ?args = "sample_args\<lparr>if_given := True, bf_given := True\<rparr>"
  have two: "[0..<2] = [0, Suc 0]"
    by (simp add: upt_rec)
  have given: "bf_given ?args"
    by simp
  have low: "check (bf_open sample_world (bf_arg ?args)) [C, G, T, A] = 1"
    by (simp add: sample_world_def sample_bf_def)
  have mf: "mer_filter ?args sample_world = Inr (Filter_bf (check sample_bf) None)"
    by (simp add: mer_filter_def load_bloom_filter_def new_bloom_counter_def stream_read_def
          sample_args_def sample_world_def sample_bf_def)
  have gen: "generator_given ?args \<longrightarrow> generator_wait sample_world"
    by (simp add: sample_args_def)
  have run: "count_main ?args sample_world
       = ([Exec_join [[Set_mer [A, C, G, T], Set_mer [C, G, T, A], Set_mer [G, T, A, C],
                       Set_mer [T, A, C, G], Set_mer [A, C, G, T], Done], [Done]],
           Exec_join [[Update_add [A, C, G, T] 1, Update_add [A, C, G, T] 1, Done], [Done]],
           Dump True None None],
          Inr 0)"
    unfolding count_main_counted [OF mf gen]
    by (simp add: two generator_started_def prime_pass_eq main_pass_eq pass_calls_def
          op_call_def mer_iterator_def write_output_events write_output_status
          sample_args_def sample_world_def sample_bf_def)
  from given low run show ?thesis
    by blast
qed

section \<open>Counting a sequence\<close>

lemma concat_update_Cons:
  "t < length traces \<Longrightarrow> traces ! t = c # cs \<Longrightarrow>
   mset (concat traces) = add_mset c (mset (concat (traces[t := cs])))"
proof (induction traces arbitrary: t)
  case Nil
  then show ?case by simp
next
  case (Cons tr traces)
  show ?case
  proof (cases t)
    case 0
    with Cons.prems show ?thesis by simp
  next
    case (Suc t')
    with Cons.prems have "t' < length traces" and "traces ! t' = c # cs"
      by simp_all
    then have "mset (concat traces) = add_mset c (mset (concat (traces[t' := cs])))"
      by (rule Cons.IH)
    with Suc show ?thesis by simp
  qed
qed

lemma interleave_mset: "mset (interleave sched traces) = mset (concat traces)"
proof (induction sched arbitrary: traces)
  case Nil
  show ?case by simp
next
  case (Cons t sched)
  show ?case
  proof (cases "t < length traces")
    case False
    then show ?thesis by (simp add: Cons.IH)
  next
    case True
    show ?thesis
    proof (cases "traces ! t")
      case Nil
      with True show ?thesis by (simp add: Cons.IH)
    next
      case (Cons c cs)
      with True show ?thesis
        by (simp add: Cons.IH concat_update_Cons [OF True Cons])
    qed
  qed
qed

lemma interleave_count: "count_list (interleave sched traces) c = count_list (concat traces) c"
  using interleave_mset [of sched traces] by (metis count_mset)

lemma interleave_set: "set (interleave sched traces) = set (concat traces)"
  using interleave_mset [of sched traces] by (metis set_mset_mset)

lemma run_calls_Cons: "run_calls h (c # calls) = run_calls (apply_call h c) calls"
  by (simp add: run_calls_def)

lemma slots_counting:
  "\<forall>c \<in> set calls. counting_call c \<Longrightarrow>
   slots (run_calls h calls) m =
     (if count_list calls (Add m 1) = 0 then slots h m
      else Some ((case slots h m of None \<Rightarrow> 0 | Some n \<Rightarrow> n) + count_list calls (Add m 1)))"
proof (induction calls arbitrary: h)
  case Nil
  show ?case by (simp add: run_calls_def)
next
  case (Cons c calls)
  then have rest: "\<forall>c \<in> set calls. counting_call c" and this_call: "counting_call c"
    by simp_all
  show ?case
  proof (cases "c = Done")
    case True
    then show ?thesis
      by (simp add: run_calls_Cons Cons.IH [OF rest] hash_done_def)
  next
    case False
    with this_call obtain key where c: "c = Add key 1"
      by (cases c) simp_all
    show ?thesis
      by (cases "slots h m") (simp_all add: c run_calls_Cons Cons.IH [OF rest] hash_add_def)
  qed
qed

lemma nb_done_counting:
  "\<forall>c \<in> set calls. counting_call c \<Longrightarrow>
   nb_done (run_calls h calls) = nb_done h + count_list calls Done"
proof (induction calls arbitrary: h)
  case Nil
  show ?case by (simp add: run_calls_def)
next
  case (Cons c calls)
  then have rest: "\<forall>c \<in> set calls. counting_call c" and this_call: "counting_call c"
    by simp_all
  show ?case
  proof (cases "c = Done")
    case True
    then show ?thesis
      by (simp add: run_calls_Cons Cons.IH [OF rest] hash_done_def)
  next
    case False
    with this_call obtain key where c: "c = Add key 1"
      by (cases c) simp_all
    show ?thesis
      by (simp add: c run_calls_Cons Cons.IH [OF rest] hash_add_def)
  qed
qed

lemma count_pass_counting:
  "\<forall>c \<in> set (concat (map (\<lambda>thid. map (op_call COUNT) (mers thid) @ [Done]) ts)). counting_call c"
  by (auto simp: op_call_def)

lemma count_list_adds:
  "count_list (map (op_call COUNT) ms) (Add m 1) = count_list ms m"
  by (induction ms) (auto simp: op_call_def)

lemma count_pass_adds:
  "count_list (concat (map (\<lambda>thid. map (op_call COUNT) (mers thid) @ [Done]) ts)) (Add m 1)
   = count_list (concat (map mers ts)) m"
proof (induction ts)
  case Nil
  show ?case by simp
next
  case (Cons t ts)
  show ?case
    using Cons.IH count_list_adds [of "mers t" m] by simp
qed

lemma count_pass_dones:
  "count_list (concat (map (\<lambda>thid. map (op_call COUNT) (mers thid) @ [Done]) ts)) Done
   = length ts"
proof (induction ts)
  case Nil
  show ?case by simp
next
  case (Cons t ts)
  have "count_list (map (op_call COUNT) (mers t)) Done = 0"
    by (auto simp: count_list_0_iff op_call_def)
  then show ?case
    by (simp add: Cons.IH)
qed

lemma windows_scenario:
  "mer_iterator 4 False [[A, C, G, T, A, C, G, T]] =
     [[A, C, G, T], [C, G, T, A], [G, T, A, C], [T, A, C, G], [A, C, G, T]]"
  by (simp add: mer_iterator_def)

lemma count_pass_table:
  assumes "mset (concat (map mers ts)) = mset ms"
  shows "slots (run_calls empty_hash
           (interleave sched (map (\<lambda>thid. map (op_call COUNT) (mers thid) @ [Done]) ts))) m
         = (if count_list ms m = 0 then None else Some (count_list ms m))"
    and "nb_done (run_calls empty_hash
           (interleave sched (map (\<lambda>thid. map (op_call COUNT) (mers thid) @ [Done]) ts)))
         = length ts"
proof -
  let ?traces = "map (\<lambda>thid. map (op_call COUNT) (mers thid) @ [Done]) ts"
  have cc: "\<forall>c \<in> set (interleave sched ?traces). counting_call c"
    unfolding interleave_set by (rule count_pass_counting)
  have "count_list (concat (map mers ts)) m = count_list ms m"
    using assms by (metis count_mset)
  then have adds: "count_list (interleave sched ?traces) (Add m 1) = count_list ms m"
    using count_pass_adds [of mers ts m] by (simp add: interleave_count)
  show "slots (run_calls empty_hash (interleave sched ?traces)) m
         = (if count_list ms m = 0 then None else Some (count_list ms m))"
    unfolding slots_counting [OF cc] adds by (simp add: empty_hash_def)
  show "nb_done (run_calls empty_hash (interleave sched ?traces)) = length ts"
    by (simp add: nb_done_counting [OF cc] interleave_count count_pass_dones empty_hash_def)
qed

text \<open>
  Claim C1, as amended. The 4-mers of ACGTACGT are ACGT, CGTA, GTAC, TACG, ACGT. For
  every number of workers, every way the parser shares these five 4-mers among them and
  every interleaving of their calls, a COUNT pass without filter on an empty table that
  is never full leaves the counts ACGT 2, CGTA 1, GTAC 1, TACG 1, and every worker has
  called \<^verbatim>\<open>done()\<close>.
\<close>

theorem count_scenario:
  "mer_iterator 4 False [[A, C, G, T, A, C, G, T]] =
     [[A, C, G, T], [C, G, T, A], [G, T, A, C], [T, A, C, G], [A, C, G, T]]
   \<and> (mset (concat (map (\<lambda>thid. mer_iterator 4 False (parser thid)) [0..<nb_threads]))
        = mset (mer_iterator 4 False [[A, C, G, T, A, C, G, T]]) \<longrightarrow>
      slots (run_calls empty_hash (interleave sched
               (exec_join nb_threads (start 4 False (new_mer_counter parser COUNT None)))))
        = [[A, C, G, T] \<mapsto> 2, [C, G, T, A] \<mapsto> 1, [G, T, A, C] \<mapsto> 1, [T, A, C, G] \<mapsto> 1]
      \<and> nb_done (run_calls empty_hash (interleave sched
               (exec_join nb_threads (start 4 False (new_mer_counter parser COUNT None)))))
        = nb_threads)"
proof (intro conjI impI)
  show "mer_iterator 4 False [[A, C, G, T, A, C, G, T]] =
     [[A, C, G, T], [C, G, T, A], [G, T, A, C], [T, A, C, G], [A, C, G, T]]"
    by (rule windows_scenario)
next
  assume shares: "mset (concat (map (\<lambda>thid. mer_iterator 4 False (parser thid)) [0..<nb_threads]))
        = mset (mer_iterator 4 False [[A, C, G, T, A, C, G, T]])"
  have traces: "exec_join nb_threads (start 4 False (new_mer_counter parser COUNT None)) =
      map (\<lambda>thid. map (op_call COUNT) (mer_iterator 4 False (parser thid)) @ [Done])
        [0..<nb_threads]"
    by (simp add: exec_join_start pass_calls_def)
  show "slots (run_calls empty_hash (interleave sched
               (exec_join nb_threads (start 4 False (new_mer_counter parser COUNT None)))))
        = [[A, C, G, T] \<mapsto> 2, [C, G, T, A] \<mapsto> 1, [G, T, A, C] \<mapsto> 1, [T, A, C, G] \<mapsto> 1]"
    unfolding traces
    by (rule ext) (simp add: count_pass_table(1) [OF shares] windows_scenario)
  show "nb_done (run_calls empty_hash (interleave sched
               (exec_join nb_threads (start 4 False (new_mer_counter parser COUNT None)))))
        = nb_threads"
    unfolding traces
    by (simp add: count_pass_table(2) [OF shares])
qed

theorem count_scenario_witness:
  "mset (concat (map (\<lambda>thid. mer_iterator 4 False (split_parser thid)) [0..<2]))
     = mset (mer_iterator 4 False [[A, C, G, T, A, C, G, T]])
   \<and> interleave [1, 0, 1, 0, 1] (exec_join 2 (start 4 False (new_mer_counter split_parser COUNT None)))
     = [Add [T, A, C, G] 1, Add [A, C, G, T] 1, Add [A, C, G, T] 1, Add [C, G, T, A] 1, Done,
        Add [G, T, A, C] 1, Done]
   \<and> slots (run_calls empty_hash (interleave [1, 0, 1, 0, 1]
              (exec_join 2 (start 4 False (new_mer_counter split_parser COUNT None)))))
     = [[A, C, G, T] \<mapsto> 2, [C, G, T, A] \<mapsto> 1, [G, T, A, C] \<mapsto> 1, [T, A, C, G] \<mapsto> 1]
   \<and> nb_done (run_calls empty_hash (interleave [1, 0, 1, 0, 1]
              (exec_join 2 (start 4 False (new_mer_counter split_parser COUNT None))))) = 2"
proof -
  have two: "[0..<2] = [0, Suc 0]"
    by (simp add: upt_rec)
  have shares: "mset (concat (map (\<lambda>thid. mer_iterator 4 False (split_parser thid)) [0..<2]))
     = mset (mer_iterator 4 False [[A, C, G, T, A, C, G, T]])"
    by (simp add: two mer_iterator_def split_parser_def)
  have order: "interleave [1, 0, 1, 0, 1]
       (exec_join 2 (start 4 False (new_mer_counter split_parser COUNT None)))
     = [Add [T, A, C, G] 1, Add [A, C, G, T] 1, Add [A, C, G, T] 1, Add [C, G, T, A] 1, Done,
        Add [G, T, A, C] 1, Done]"
    by (simp add: two exec_join_start pass_calls_def op_call_def mer_iterator_def split_parser_def)
  from shares order
    count_scenario [of split_parser 2 "[1, 0, 1, 0, 1]", THEN conjunct2, rule_format, OF shares]
  show ?thesis
    by blast
qed

text \<open>
  Claim C1, as stated, gives the counts ACGT 2, CGTA 1, GTAC 1 only. The table also
  holds TACG, the fourth of the five 4-mers.
\<close>

theorem count_scenario_has_four_keys:
  "slots (run_calls empty_hash (interleave []
      (exec_join 2 (start 4 False (new_mer_counter (sequences sample_world [] []) COUNT None)))))
   \<noteq> [[A, C, G, T] \<mapsto> 2, [C, G, T, A] \<mapsto> 1, [G, T, A, C] \<mapsto> 1]"
proof
  assume eq: "slots (run_calls empty_hash (interleave []
      (exec_join 2 (start 4 False (new_mer_counter (sequences sample_world [] []) COUNT None)))))
   = [[A, C, G, T] \<mapsto> 2, [C, G, T, A] \<mapsto> 1, [G, T, A, C] \<mapsto> 1]"
  have two: "[0..<2] = [0, Suc 0]"
    by (simp add: upt_rec)
  have "slots (run_calls empty_hash (interleave []
      (exec_join 2 (start 4 False (new_mer_counter (sequences sample_world [] []) COUNT None)))))
      [T, A, C, G] = Some 1"
    by (simp add: two exec_join_start pass_calls_def op_call_def mer_iterator_def
          sample_world_def run_calls_def empty_hash_def hash_add_def hash_done_def)
  then show False
    unfolding eq by simp
qed

end
